theory Spec2Isabelle
  imports Complex_Main
begin

section \<open>The shared worker of market-worker.js\<close>

text \<open>
  The worker is a single-threaded event handler over module-level variables. Each handler
  of the source becomes a function from the state (the module variables, the runtime's
  pending timers and sockets, and the log of what was sent) to an outcome: the handler
  returned, or an exception left it early. \<open>Date.now()\<close> is the argument \<open>now\<close>.
\<close>

subsection \<open>Data\<close>

text \<open>A row of market data: the key \<open>symbol\<close> and the other fields, which the worker never reads.\<close>

record row =
  symbol :: string
  others :: "(string \<times> int) list"

text \<open>
  A JSON message, by its \<open>type\<close> field. The same shapes travel from the server, to the
  ports and from the ports; \<open>Other\<close> is any type the handlers have no branch for.
\<close>

datatype message =
    Connected
  | Disconnected
  | Ping
  | Pong
  | Disconnect
  | Initial "row list"
  | Update "row list" int
  | SetFrequency int
  | SetBatchSize int int
  | FrequencyChanged int
  | BatchSizeChanged int int
  | Other string

text \<open>What a socket delivers: text that \<open>JSON.parse\<close> accepts, or text on which it throws.\<close>

datatype frame = Json message | Garbage

type_synonym port = nat

datatype readyState = CONNECTING | OPEN | CLOSING | CLOSED

text \<open>The value of the map \<open>ports\<close>: \<open>{ id, lastPong }\<close>.\<close>

record portInfo =
  port_id :: nat
  lastPong :: int

datatype callback = FlushBatch | Reconnect | Heartbeat

text \<open>A timer the runtime holds: its handle, its callback, its delay in ms, and whether
  it repeats (\<open>setInterval\<close>) or fires once (\<open>setTimeout\<close>).\<close>

record timer =
  handle :: nat
  callback :: callback
  delay :: rat
  repeating :: bool

text \<open>What leaves the worker, in order.\<close>

datatype effect =
    PostMessage port message
  | Send nat message
  | Close nat
  | NewWebSocket nat

text \<open>
  The module variables keep their names. A JavaScript \<open>Map\<close> iterates in insertion
  order, so \<open>ports\<close> and \<open>pendingUpdates\<close> are association lists. \<open>ws\<close> holds the index
  of a socket in \<open>sockets\<close>, the runtime's store of every socket created, with its
  \<open>readyState\<close>. \<open>timers\<close> are the timers the runtime still holds; timer handles are
  positive, so a handle is truthy exactly when the variable is not \<open>null\<close>. \<open>faulty\<close> is the
  environment: the ports whose \<open>postMessage\<close> throws.
\<close>

record state =
  ws :: "nat option"
  ports :: "(port \<times> portInfo) list"
  reconnectTimeout :: "nat option"
  lastInitialData :: "message option"
  nextPortId :: nat
  heartbeatInterval :: "nat option"
  pendingUpdates :: "(string \<times> row) list"
  batchTimer :: "nat option"
  sockets :: "readyState list"
  timers :: "timer list"
  nextTimer :: nat
  faulty :: "port set"
  out :: "effect list"

datatype outcome = Returned state | Thrown state

fun state_of :: "outcome \<Rightarrow> state" where
  "state_of (Returned s) = s"
| "state_of (Thrown s) = s"

fun returned :: "outcome \<Rightarrow> bool" where
  "returned (Returned s) = True"
| "returned (Thrown s) = False"

text \<open>Sequencing: an exception skips the rest of the handler.\<close>

fun and_then :: "outcome \<Rightarrow> (state \<Rightarrow> outcome) \<Rightarrow> outcome" where
  "and_then (Returned s) f = f s"
| "and_then (Thrown s) f = Thrown s"

text \<open>\<open>try { ... } catch (e) { ... }\<close>.\<close>

fun try_catch :: "outcome \<Rightarrow> (state \<Rightarrow> outcome) \<Rightarrow> outcome" where
  "try_catch (Returned s) h = Returned s"
| "try_catch (Thrown s) h = h s"

definition init_state :: "port set \<Rightarrow> state" where
  "init_state bad =
     \<lparr> ws = None, ports = [], reconnectTimeout = None, lastInitialData = None,
       nextPortId = 1, heartbeatInterval = None, pendingUpdates = [], batchTimer = None,
       sockets = [], timers = [], nextTimer = 1, faulty = bad, out = [] \<rparr>"

definition BATCH_INTERVAL :: rat where
  "BATCH_INTERVAL = 1000 / 60"

definition HEARTBEAT_TIMEOUT :: int where
  "HEARTBEAT_TIMEOUT = 30000"

subsection \<open>The JavaScript Map\<close>

text \<open>\<open>m.set(k, v)\<close>: a key already present keeps its place; a new key goes last.\<close>

fun map_set :: "('k \<times> 'v) list \<Rightarrow> 'k \<Rightarrow> 'v \<Rightarrow> ('k \<times> 'v) list" where
  "map_set [] k v = [(k, v)]"
| "map_set ((k', v') # m) k v = (if k' = k then (k, v) # m else (k', v') # map_set m k v)"

definition map_get :: "('k \<times> 'v) list \<Rightarrow> 'k \<Rightarrow> 'v option" where
  "map_get m k = map_of m k"

definition map_has :: "('k \<times> 'v) list \<Rightarrow> 'k \<Rightarrow> bool" where
  "map_has m k = (map_of m k \<noteq> None)"

definition map_delete :: "('k \<times> 'v) list \<Rightarrow> 'k \<Rightarrow> ('k \<times> 'v) list" where
  "map_delete m k = filter (\<lambda>e. fst e \<noteq> k) m"

definition map_keys :: "('k \<times> 'v) list \<Rightarrow> 'k list" where
  "map_keys m = map fst m"

definition map_values :: "('k \<times> 'v) list \<Rightarrow> 'v list" where
  "map_values m = map snd m"

subsection \<open>The runtime: timers, sockets, ports\<close>

definition setTimeout :: "state \<Rightarrow> callback \<Rightarrow> rat \<Rightarrow> nat \<times> state" where
  "setTimeout s cb d =
     (nextTimer s,
      s\<lparr>timers := timers s @ [\<lparr>handle = nextTimer s, callback = cb, delay = d, repeating = False\<rparr>],
        nextTimer := Suc (nextTimer s)\<rparr>)"

definition setInterval :: "state \<Rightarrow> callback \<Rightarrow> rat \<Rightarrow> nat \<times> state" where
  "setInterval s cb d =
     (nextTimer s,
      s\<lparr>timers := timers s @ [\<lparr>handle = nextTimer s, callback = cb, delay = d, repeating = True\<rparr>],
        nextTimer := Suc (nextTimer s)\<rparr>)"

text \<open>\<open>clearTimeout\<close> and \<open>clearInterval\<close> share one pool of handles; an unknown handle is ignored.\<close>

definition clearTimeout :: "state \<Rightarrow> nat \<Rightarrow> state" where
  "clearTimeout s h = s\<lparr>timers := filter (\<lambda>t. handle t \<noteq> h) (timers s)\<rparr>"

definition clearInterval :: "state \<Rightarrow> nat \<Rightarrow> state" where
  "clearInterval s h = clearTimeout s h"

definition ready :: "state \<Rightarrow> nat \<Rightarrow> readyState" where
  "ready s w = (if w < length (sockets s) then sockets s ! w else CLOSED)"

text \<open>\<open>ws && ws.readyState === WebSocket.OPEN\<close>.\<close>

definition ws_open :: "state \<Rightarrow> bool" where
  "ws_open s = (case ws s of None \<Rightarrow> False | Some w \<Rightarrow> ready s w = OPEN)"

text \<open>\<open>ws.close()\<close>: a socket that is connecting or open starts closing; otherwise nothing changes.\<close>

definition ws_close :: "state \<Rightarrow> nat \<Rightarrow> state" where
  "ws_close s w =
     s\<lparr>sockets := (if ready s w = CONNECTING \<or> ready s w = OPEN
                     then (sockets s)[w := CLOSING] else sockets s),
       out := out s @ [Close w]\<rparr>"

definition ws_send :: "state \<Rightarrow> nat \<Rightarrow> message \<Rightarrow> state" where
  "ws_send s w m = s\<lparr>out := out s @ [Send w m]\<rparr>"

definition postMessage :: "state \<Rightarrow> port \<Rightarrow> message \<Rightarrow> outcome" where
  "postMessage s p m =
     (if p \<in> faulty s then Thrown s else Returned (s\<lparr>out := out s @ [PostMessage p m]\<rparr>))"

subsection \<open>The functions of the worker\<close>

text \<open>\<open>broadcast\<close>: a plain loop, no \<open>try\<close>; the first throwing port ends it.\<close>

fun broadcast_loop :: "port list \<Rightarrow> message \<Rightarrow> state \<Rightarrow> outcome" where
  "broadcast_loop [] m s = Returned s"
| "broadcast_loop (p # ps) m s = and_then (postMessage s p m) (broadcast_loop ps m)"

definition broadcast :: "state \<Rightarrow> message \<Rightarrow> outcome" where
  "broadcast s m = broadcast_loop (map_keys (ports s)) m s"

definition flushBatch :: "state \<Rightarrow> int \<Rightarrow> outcome" where
  "flushBatch s now =
     (if length (pendingUpdates s) = 0 then Returned s
      else and_then (broadcast s (Update (map_values (pendingUpdates s)) now))
             (\<lambda>s'. Returned (s'\<lparr>pendingUpdates := [], batchTimer := None\<rparr>)))"

definition scheduleBatch :: "state \<Rightarrow> state" where
  "scheduleBatch s =
     (if batchTimer s \<noteq> None then s
      else (case setTimeout s FlushBatch BATCH_INTERVAL of
              (h, s') \<Rightarrow> s'\<lparr>batchTimer := Some h\<rparr>))"

text \<open>\<open>connect\<close>: \<open>ws = new WebSocket(...)\<close>; the handlers it installs are the functions \<open>ws_on...\<close> below.\<close>

definition connect :: "state \<Rightarrow> state" where
  "connect s =
     s\<lparr>ws := Some (length (sockets s)),
       sockets := sockets s @ [CONNECTING],
       out := out s @ [NewWebSocket (length (sockets s))]\<rparr>"

definition ws_onopen :: "state \<Rightarrow> outcome" where
  "ws_onopen s = broadcast s Connected"

definition offer :: "state \<Rightarrow> row \<Rightarrow> state" where
  "offer s r = s\<lparr>pendingUpdates := map_set (pendingUpdates s) (symbol r) r\<rparr>"

definition ws_onmessage :: "state \<Rightarrow> frame \<Rightarrow> outcome" where
  "ws_onmessage s f =
     (case f of
        Garbage \<Rightarrow> Thrown s
      | Json m \<Rightarrow>
          (case m of
             Initial d \<Rightarrow> broadcast (s\<lparr>lastInitialData := Some m\<rparr>) m
           | Update d ts \<Rightarrow> Returned (scheduleBatch (foldl offer s d))
           | _ \<Rightarrow> broadcast s m))"

definition ws_onclose :: "state \<Rightarrow> int \<Rightarrow> outcome" where
  "ws_onclose s now =
     and_then (broadcast s Disconnected) (\<lambda>s1.
     and_then (case batchTimer s1 of
                 None \<Rightarrow> Returned s1
               | Some h \<Rightarrow> flushBatch (clearTimeout s1 h) now) (\<lambda>s2.
     Returned (if length (ports s2) > 0
               then (case setTimeout s2 Reconnect 2000 of
                       (h, s3) \<Rightarrow> s3\<lparr>reconnectTimeout := Some h\<rparr>)
               else s2\<lparr>ws := None\<rparr>)))"

definition checkCleanup :: "state \<Rightarrow> state" where
  "checkCleanup s =
     (if length (ports s) = 0 then
        (let s1 = (case reconnectTimeout s of
                     None \<Rightarrow> s
                   | Some h \<Rightarrow> (clearTimeout s h)\<lparr>reconnectTimeout := None\<rparr>);
             s2 = (case heartbeatInterval s1 of
                     None \<Rightarrow> s1
                   | Some h \<Rightarrow> (clearInterval s1 h)\<lparr>heartbeatInterval := None\<rparr>)
         in (case ws s2 of
               None \<Rightarrow> s2
             | Some w \<Rightarrow> (ws_close s2 w)\<lparr>ws := None\<rparr>))
      else s)"

definition removePort :: "state \<Rightarrow> port \<Rightarrow> state" where
  "removePort s p =
     (if map_has (ports s) p
      then checkCleanup (s\<lparr>ports := map_delete (ports s) p\<rparr>)
      else s)"

text \<open>
  The two heartbeat loops run over the entries of \<open>ports\<close> and remove only the entry they
  are at, which a \<open>Map\<close> iterator allows: the entries still to come are the ones of the
  map at the start.
\<close>

fun checkHeartbeats_loop :: "(port \<times> portInfo) list \<Rightarrow> int \<Rightarrow> state \<Rightarrow> state" where
  "checkHeartbeats_loop [] now s = s"
| "checkHeartbeats_loop ((p, info) # es) now s =
     checkHeartbeats_loop es now
       (if now - lastPong info > HEARTBEAT_TIMEOUT then removePort s p else s)"

definition checkHeartbeats :: "state \<Rightarrow> int \<Rightarrow> state" where
  "checkHeartbeats s now = checkHeartbeats_loop (ports s) now s"

fun sendHeartbeats_loop :: "(port \<times> portInfo) list \<Rightarrow> state \<Rightarrow> state" where
  "sendHeartbeats_loop [] s = s"
| "sendHeartbeats_loop ((p, info) # es) s =
     sendHeartbeats_loop es
       (state_of (try_catch (postMessage s p Ping) (\<lambda>s'. Returned (removePort s' p))))"

definition sendHeartbeats :: "state \<Rightarrow> state" where
  "sendHeartbeats s = sendHeartbeats_loop (ports s) s"

text \<open>The callback of the interval: \<open>sendHeartbeats(); checkHeartbeats();\<close>.\<close>

definition heartbeat_tick :: "state \<Rightarrow> int \<Rightarrow> state" where
  "heartbeat_tick s now = checkHeartbeats (sendHeartbeats s) now"

definition startHeartbeatMonitoring :: "state \<Rightarrow> state" where
  "startHeartbeatMonitoring s =
     (if heartbeatInterval s \<noteq> None then s
      else (case setInterval s Heartbeat 10000 of
              (h, s') \<Rightarrow> s'\<lparr>heartbeatInterval := Some h\<rparr>))"

text \<open>The loop of \<open>port.onmessage\<close> that tells every other port of a changed setting.\<close>

fun notify_others :: "port list \<Rightarrow> port \<Rightarrow> message \<Rightarrow> state \<Rightarrow> outcome" where
  "notify_others [] port m s = Returned s"
| "notify_others (p # ps) port m s =
     (if p \<noteq> port then and_then (postMessage s p m) (notify_others ps port m)
      else notify_others ps port m s)"

text \<open>\<open>if (ws && ws.readyState === WebSocket.OPEN) ws.send(JSON.stringify(m))\<close>.\<close>

definition forward :: "state \<Rightarrow> message \<Rightarrow> state" where
  "forward s m =
     (case ws s of
        None \<Rightarrow> s
      | Some w \<Rightarrow> if ready s w = OPEN then ws_send s w m else s)"

definition port_onmessage :: "state \<Rightarrow> port \<Rightarrow> message \<Rightarrow> int \<Rightarrow> outcome" where
  "port_onmessage s port m now =
     (case map_get (ports s) port of
        None \<Rightarrow> Returned s
      | Some info \<Rightarrow>
          (case m of
             Pong \<Rightarrow> Returned (s\<lparr>ports := map_set (ports s) port (info\<lparr>lastPong := now\<rparr>)\<rparr>)
           | Disconnect \<Rightarrow> Returned (removePort s port)
           | SetFrequency frequency \<Rightarrow>
               notify_others (map_keys (ports s)) port (FrequencyChanged frequency)
                 (forward s (SetFrequency frequency))
           | SetBatchSize mn mx \<Rightarrow>
               notify_others (map_keys (ports s)) port (BatchSizeChanged mn mx)
                 (forward s (SetBatchSize mn mx))
           | _ \<Rightarrow> Returned s))"

definition onconnect :: "state \<Rightarrow> port \<Rightarrow> int \<Rightarrow> outcome" where
  "onconnect s port now =
     (let s1 = s\<lparr>nextPortId := Suc (nextPortId s),
                 ports := map_set (ports s) port \<lparr>port_id = nextPortId s, lastPong = now\<rparr>\<rparr>
      in if ws s1 = None then Returned (startHeartbeatMonitoring (connect s1))
         else and_then (case lastInitialData s1 of
                          None \<Rightarrow> Returned s1
                        | Some m \<Rightarrow> postMessage s1 port m) (\<lambda>s2.
              postMessage s2 port (if ws_open s2 then Connected else Disconnected)))"

subsection \<open>The event loop\<close>

text \<open>
  A timer that fires runs its callback; a one-shot timer leaves the runtime first. The
  reconnect callback calls \<open>connect\<close>.
\<close>

definition timer_fired :: "state \<Rightarrow> nat \<Rightarrow> int \<Rightarrow> outcome" where
  "timer_fired s h now =
     (case find (\<lambda>t. handle t = h) (timers s) of
        None \<Rightarrow> Returned s
      | Some t \<Rightarrow>
          (let s1 = (if repeating t then s else clearTimeout s h)
           in case callback t of
                FlushBatch \<Rightarrow> flushBatch s1 now
              | Reconnect \<Rightarrow> Returned (connect s1)
              | Heartbeat \<Rightarrow> Returned (heartbeat_tick s1 now)))"

datatype event =
    PortConnects port
  | PortMessage port message
  | SocketOpens nat
  | SocketMessage nat frame
  | SocketCloses nat
  | TimerFires nat

text \<open>
  One turn of the event loop at time \<open>now\<close>. The transport sets a socket's \<open>readyState\<close>
  before it calls the handler; an exception ends the handler and the worker goes on.
\<close>

definition step :: "state \<Rightarrow> int \<times> event \<Rightarrow> state" where
  "step s e =
     (case e of
        (now, PortConnects p) \<Rightarrow> state_of (onconnect s p now)
      | (now, PortMessage p m) \<Rightarrow> state_of (port_onmessage s p m now)
      | (now, SocketOpens w) \<Rightarrow> state_of (ws_onopen (s\<lparr>sockets := (sockets s)[w := OPEN]\<rparr>))
      | (now, SocketMessage w f) \<Rightarrow> state_of (ws_onmessage s f)
      | (now, SocketCloses w) \<Rightarrow> state_of (ws_onclose (s\<lparr>sockets := (sockets s)[w := CLOSED]\<rparr>) now)
      | (now, TimerFires h) \<Rightarrow> state_of (timer_fired s h now))"

definition run :: "state \<Rightarrow> (int \<times> event) list \<Rightarrow> state" where
  "run s es = foldl step s es"

subsection \<open>The other worker's broadcast\<close>

text \<open>
  The repository holds a second worker (unnamed/part_000) whose \<open>broadcast\<close> wraps each
  \<open>postMessage\<close> in \<open>try\<close> and removes a port that throws; it walks a copy of the keys,
  \<open>Array.from(ports.keys())\<close>, or the one \<open>targetPort\<close>. Its \<open>removePort\<close> and
  \<open>checkCleanup\<close> are the ones above.
\<close>

fun broadcast_each :: "port list \<Rightarrow> message \<Rightarrow> state \<Rightarrow> state" where
  "broadcast_each [] m s = s"
| "broadcast_each (p # ps) m s =
     broadcast_each ps m
       (state_of (try_catch (postMessage s p m) (\<lambda>s'. Returned (removePort s' p))))"

definition broadcast_part_000 :: "state \<Rightarrow> message \<Rightarrow> port option \<Rightarrow> state" where
  "broadcast_part_000 s m targetPort =
     broadcast_each (case targetPort of Some p \<Rightarrow> [p] | None \<Rightarrow> map_keys (ports s)) m s"

subsection \<open>Observations and inputs\<close>

text \<open>No port of the list throws on \<open>postMessage\<close>.\<close>

definition deliverable :: "state \<Rightarrow> port list \<Rightarrow> bool" where
  "deliverable s ps = (\<forall>p \<in> set ps. p \<notin> faulty s)"

text \<open>The messages sent to the server, and the messages posted to ports, in order.\<close>

fun sent_upstream :: "effect list \<Rightarrow> message list" where
  "sent_upstream [] = []"
| "sent_upstream (Send w m # es) = m # sent_upstream es"
| "sent_upstream (e # es) = sent_upstream es"

fun posted :: "effect list \<Rightarrow> (port \<times> message) list" where
  "posted [] = []"
| "posted (PostMessage p m # es) = (p, m) # posted es"
| "posted (e # es) = posted es"

text \<open>Ports that connect one after the other, each at its time.\<close>

definition attaches :: "(int \<times> port) list \<Rightarrow> (int \<times> event) list" where
  "attaches ps = map (\<lambda>(now, p). (now, PortConnects p)) ps"

text \<open>
  \<open>update\<close> messages that arrive on socket \<open>w\<close>, each with its arrival time, its rows and
  its \<open>timestamp\<close> field; the rows they offer, in order; and the pending map after a list
  of rows went through \<open>pendingUpdates.set(row.symbol, row)\<close>.
\<close>

definition updates :: "nat \<Rightarrow> (int \<times> row list \<times> int) list \<Rightarrow> (int \<times> event) list" where
  "updates w ms = map (\<lambda>(now, d, ts). (now, SocketMessage w (Json (Update d ts)))) ms"

definition offered :: "(int \<times> row list \<times> int) list \<Rightarrow> row list" where
  "offered ms = concat (map (\<lambda>(now, d, ts). d) ms)"

definition offers :: "(string \<times> row) list \<Rightarrow> row list \<Rightarrow> (string \<times> row) list" where
  "offers m rs = foldl (\<lambda>m r. map_set m (symbol r) r) m rs"

text \<open>Every timer the runtime holds was handed out before: the next handle is new.\<close>

definition fresh_handles :: "state \<Rightarrow> bool" where
  "fresh_handles s = (\<forall>t \<in> set (timers s). handle t < nextTimer s)"

text \<open>
  Port \<open>p\<close> is registered with \<open>lastPong = a\<close>, its \<open>postMessage\<close> works, and the interval
  with handle \<open>h\<close> runs the heartbeat callback.
\<close>

definition monitored :: "state \<Rightarrow> port \<Rightarrow> int \<Rightarrow> nat \<Rightarrow> bool" where
  "monitored s p a h =
     (distinct (map_keys (ports s))
      \<and> map_option lastPong (map_get (ports s) p) = Some a
      \<and> p \<notin> faulty s
      \<and> map_option (\<lambda>t. (callback t, repeating t)) (find (\<lambda>t. handle t = h) (timers s))
          = Some (Heartbeat, True))"

text \<open>
  The delay, in whole ms, with which the timer \<open>h\<close> was registered; 0 when the runtime
  holds no such timer.
\<close>

definition period :: "state \<Rightarrow> nat \<Rightarrow> int" where
  "period s h =
     (case find (\<lambda>t. handle t = h) (timers s) of None \<Rightarrow> 0 | Some t \<Rightarrow> \<lfloor>delay t\<rfloor>)"

text \<open>
  The interval \<open>h\<close> of state \<open>s\<close> fires on time, at \<open>t0\<close> plus once, twice, ... its
  registered delay; nothing else happens in between (no \<open>pong\<close> arrives).
\<close>

fun ticks :: "state \<Rightarrow> nat \<Rightarrow> int \<Rightarrow> nat \<Rightarrow> state" where
  "ticks s h t0 0 = s"
| "ticks s h t0 (Suc n) =
     step (ticks s h t0 n) (t0 + period s h * int (Suc n), TimerFires h)"

subsection \<open>Scenarios\<close>

definition aapl :: "int \<Rightarrow> row" where
  "aapl price = \<lparr>symbol = ''AAPL'', others = [(''price'', price)]\<rparr>"

definition msft :: "int \<Rightarrow> row" where
  "msft price = \<lparr>symbol = ''MSFT'', others = [(''price'', price)]\<rparr>"

text \<open>One tab connected at time 0; the socket opened and delivered the initial data.\<close>

definition tab_connected :: state where
  "tab_connected =
     run (init_state {})
       [(0, PortConnects 1), (10, SocketOpens 0),
        (20, SocketMessage 0 (Json (Initial [aapl 100, msft 50])))]"

text \<open>A second tab joined.\<close>

definition two_tabs :: state where
  "two_tabs = run tab_connected [(30, PortConnects 2)]"

text \<open>One tab, and an update that waits for the batch timer.\<close>

definition tab_pending :: state where
  "tab_pending = run tab_connected [(40, SocketMessage 0 (Json (Update [aapl 101] 39)))]"

text \<open>Two tabs, A = 1 and B = 2, connected in this order; \<open>postMessage\<close> of A throws.\<close>

definition tabs_a_b :: state where
  "tabs_a_b = run (init_state {1}) [(0, PortConnects 1), (1, PortConnects 2)]"

text \<open>One tab; an update message with no rows arrived and its flush timer fired.\<close>

definition tab_after_empty_update :: state where
  "tab_after_empty_update =
     run tab_connected [(40, SocketMessage 0 (Json (Update [] 39))), (57, TimerFires 2)]"

text \<open>
  Tab 1 leaves and tab 2 connects before the close event of the first socket arrives; the
  second socket drops as well, each close scheduling a reconnect; tab 2 leaves, and the
  reconnect timer of the first close, whose handle was overwritten, fires. Then tab 3
  connects.
\<close>

definition tab_unmonitored :: state where
  "tab_unmonitored =
     run (init_state {})
       [(0, PortConnects 1), (100, PortMessage 1 Disconnect), (200, PortConnects 2),
        (300, SocketCloses 0), (400, SocketCloses 1), (500, PortMessage 2 Disconnect),
        (2300, TimerFires 3), (5000, PortConnects 3)]"

section \<open>Properties\<close>

text \<open>The defining equations, for evaluating the worker on a concrete run.\<close>

lemmas worker_defs = init_state_def run_def step_def onconnect_def port_onmessage_def
  timer_fired_def ws_onclose_def ws_onmessage_def ws_onopen_def connect_def
  startHeartbeatMonitoring_def heartbeat_tick_def sendHeartbeats_def checkHeartbeats_def
  removePort_def checkCleanup_def scheduleBatch_def flushBatch_def broadcast_def offer_def
  forward_def postMessage_def ws_send_def ws_close_def ws_open_def ready_def
  clearInterval_def clearTimeout_def setInterval_def setTimeout_def
  map_values_def map_keys_def map_delete_def map_has_def map_get_def
  BATCH_INTERVAL_def HEARTBEAT_TIMEOUT_def

lemmas scenario_defs = tab_connected_def two_tabs_def tab_pending_def tabs_a_b_def
  tab_after_empty_update_def tab_unmonitored_def
  aapl_def msft_def attaches_def updates_def offered_def

subsection \<open>Messages on a port that is no longer registered\<close>

text \<open>
  C10. A message of any type that arrives on a port that is not in \<open>ports\<close> leaves the
  whole state as it was: the handler returns at once, so the port is not added again, no
  \<open>lastPong\<close> changes and nothing is sent.
\<close>

theorem removed_port_message_ignored:
  "\<not> map_has (ports s) port \<Longrightarrow> port_onmessage s port m now = Returned s"
  by (simp add: port_onmessage_def map_has_def map_get_def)

text \<open>
  A port connects, disconnects, and then sends \<open>setFrequency\<close>: the message changes nothing.
\<close>

theorem removed_port_message_ignored_witness:
  "\<not> map_has (ports (run (init_state {}) [(0, PortConnects 1), (5, PortMessage 1 Disconnect)])) 1
   \<and> port_onmessage (run (init_state {}) [(0, PortConnects 1), (5, PortMessage 1 Disconnect)])
         1 (SetFrequency 50) 9
       = Returned (run (init_state {}) [(0, PortConnects 1), (5, PortMessage 1 Disconnect)])"
proof -
  have gone:
    "\<not> map_has (ports (run (init_state {}) [(0, PortConnects 1), (5, PortMessage 1 Disconnect)])) 1"
    by (simp add: worker_defs)
  from removed_port_message_ignored [OF gone] gone show ?thesis by blast
qed

subsection \<open>Helper facts: logs and loops\<close>

lemma sent_upstream_append: "sent_upstream (xs @ ys) = sent_upstream xs @ sent_upstream ys"
  by (induction xs rule: sent_upstream.induct) simp_all

lemma posted_append: "posted (xs @ ys) = posted xs @ posted ys"
  by (induction xs rule: posted.induct) simp_all

lemma sent_upstream_posts: "sent_upstream (map (\<lambda>p. PostMessage p m) ps) = []"
  by (induction ps) simp_all

lemma posted_posts: "posted (map (\<lambda>p. PostMessage p m) ps) = map (\<lambda>p. (p, m)) ps"
  by (induction ps) simp_all

text \<open>The loops when no port throws.\<close>

lemma broadcast_loop_ok:
  "\<forall>p \<in> set ps. p \<notin> faulty s \<Longrightarrow>
   broadcast_loop ps m s = Returned (s\<lparr>out := out s @ map (\<lambda>p. PostMessage p m) ps\<rparr>)"
  by (induction ps arbitrary: s) (simp_all add: postMessage_def)

lemma notify_others_ok:
  "\<forall>p \<in> set ps. p \<noteq> port \<longrightarrow> p \<notin> faulty s \<Longrightarrow>
   notify_others ps port m s =
     Returned (s\<lparr>out := out s @ map (\<lambda>p. PostMessage p m) (filter (\<lambda>p. p \<noteq> port) ps)\<rparr>)"
  by (induction ps arbitrary: s) (simp_all add: postMessage_def)

text \<open>Whatever the ports do, the notification loop only appends posts to the log.\<close>

lemma notify_others_frame:
  "\<exists>ps'. state_of (notify_others ps port m s) = s\<lparr>out := out s @ map (\<lambda>p. PostMessage p m) ps'\<rparr>"
proof (induction ps arbitrary: s)
  case Nil
  have "s = s\<lparr>out := out s @ map (\<lambda>p. PostMessage p m) []\<rparr>" by simp
  then show ?case by (metis notify_others.simps(1) state_of.simps(1))
next
  case (Cons p ps)
  show ?case
  proof (cases "p \<noteq> port \<and> p \<notin> faulty s")
    case True
    let ?s1 = "s\<lparr>out := out s @ [PostMessage p m]\<rparr>"
    from Cons.IH [of ?s1] obtain ps' where
      "state_of (notify_others ps port m ?s1) = ?s1\<lparr>out := out ?s1 @ map (\<lambda>p. PostMessage p m) ps'\<rparr>"
      by blast
    then have "state_of (notify_others (p # ps) port m s)
        = s\<lparr>out := out s @ map (\<lambda>p. PostMessage p m) (p # ps')\<rparr>"
      using True by (simp add: postMessage_def)
    then show ?thesis by blast
  next
    case False
    show ?thesis
    proof (cases "p = port")
      case True
      then show ?thesis using Cons.IH [of s] by simp
    next
      case other: False
      with False have "p \<in> faulty s" by simp
      then have "state_of (notify_others (p # ps) port m s)
          = s\<lparr>out := out s @ map (\<lambda>p. PostMessage p m) []\<rparr>"
        using other by (simp add: postMessage_def)
      then show ?thesis by blast
    qed
  qed
qed

lemma forward_eq:
  "forward s m = s\<lparr>out := out s @ (if ws_open s then [Send (the (ws s)) m] else [])\<rparr>"
  by (simp add: forward_def ws_open_def ws_send_def split: option.splits)

subsection \<open>Helper facts: the pending map\<close>

lemma map_of_map_set: "map_of (map_set m k v) = (map_of m)(k \<mapsto> v)"
  by (induction m) (auto simp: fun_eq_iff)

lemma keys_map_set:
  "map fst (map_set m k v) = (if k \<in> set (map fst m) then map fst m else map fst m @ [k])"
  by (induction m) force+

lemma map_set_nonempty: "map_set m k v \<noteq> []"
  by (induction m k v rule: map_set.induct) auto

lemma offers_snoc: "offers m (rs @ [r]) = map_set (offers m rs) (symbol r) r"
  by (simp add: offers_def)

lemma offers_append: "offers m (rs @ rs') = offers (offers m rs) rs'"
  by (simp add: offers_def)

lemma distinct_offers: "distinct (map fst m) \<Longrightarrow> distinct (map fst (offers m rs))"
  by (induction rs rule: rev_induct) (simp_all add: offers_def keys_map_set)

lemma keys_offers: "set (map fst (offers m rs)) = set (map fst m) \<union> symbol ` set rs"
  by (induction rs rule: rev_induct) (auto simp: offers_def keys_map_set)

lemma offers_nonempty: "rs \<noteq> [] \<Longrightarrow> offers m rs \<noteq> []"
  by (induction rs rule: rev_induct) (simp_all add: offers_snoc map_set_nonempty)

text \<open>Last write wins: a key that was offered holds the last row offered under it.\<close>

lemma map_of_offers:
  "map_of (offers m rs) k =
     (if k \<in> symbol ` set rs then Some (last (filter (\<lambda>r. symbol r = k) rs)) else map_of m k)"
proof (induction rs rule: rev_induct)
  case Nil
  then show ?case by (simp add: offers_def)
next
  case (snoc r rs)
  show ?case
  proof (cases "symbol r = k")
    case True
    then show ?thesis by (simp add: offers_snoc map_of_map_set)
  next
    case False
    then show ?thesis using snoc by (auto simp: offers_snoc map_of_map_set)
  qed
qed

lemma foldl_offer: "foldl offer s rs = s\<lparr>pendingUpdates := offers (pendingUpdates s) rs\<rparr>"
proof (induction rs rule: rev_induct)
  case Nil
  then show ?case by (simp add: offers_def)
next
  case (snoc r rs)
  then show ?case by (simp add: offers_snoc offer_def)
qed

lemma batch_last_write_wins:
  assumes "b = map_values (offers [] rs)"
  shows "distinct (map symbol b)
       \<and> symbol ` set b = symbol ` set rs
       \<and> (\<forall>r \<in> set b. r = last (filter (\<lambda>x. symbol x = symbol r) rs))"
proof -
  have d: "distinct (map fst (offers [] rs))" by (rule distinct_offers) simp
  have entry: "r = last (filter (\<lambda>x. symbol x = k) rs) \<and> k \<in> symbol ` set rs"
    if "(k, r) \<in> set (offers [] rs)" for k r
  proof -
    from that d have "map_of (offers [] rs) k = Some r" by simp
    then show ?thesis by (simp add: map_of_offers split: if_splits)
  qed
  have sym: "symbol r = k" if "(k, r) \<in> set (offers [] rs)" for k r
  proof -
    from entry [OF that] have r: "r = last (filter (\<lambda>x. symbol x = k) rs)"
      and "filter (\<lambda>x. symbol x = k) rs \<noteq> []"
      by (auto simp: filter_empty_conv)
    then have "r \<in> set (filter (\<lambda>x. symbol x = k) rs)" using last_in_set by metis
    then show ?thesis by simp
  qed
  have same: "map (symbol \<circ> snd) (offers [] rs) = map fst (offers [] rs)"
    using sym by auto
  have 1: "distinct (map symbol b)" using d assms by (simp add: map_values_def same)
  have "set (map symbol b) = set (map fst (offers [] rs))"
    using assms by (simp only: map_values_def map_map same)
  then have 2: "symbol ` set b = symbol ` set rs"
    using keys_offers [of "[]" rs] by simp
  have 3: "\<forall>r \<in> set b. r = last (filter (\<lambda>x. symbol x = symbol r) rs)"
  proof
    fix r assume "r \<in> set b"
    then obtain k where kr: "(k, r) \<in> set (offers [] rs)"
      using assms by (auto simp: map_values_def)
    from entry [OF kr] sym [OF kr] show "r = last (filter (\<lambda>x. symbol x = symbol r) rs)" by simp
  qed
  from 1 2 3 show ?thesis by blast
qed

text \<open>Update messages while a flush is scheduled only change the pending map.\<close>

lemma updates_scheduled:
  "batchTimer s \<noteq> None \<Longrightarrow>
   run s (updates w ms) = s\<lparr>pendingUpdates := offers (pendingUpdates s) (offered ms)\<rparr>"
proof (induction ms rule: rev_induct)
  case Nil
  then show ?case by (simp add: run_def updates_def offered_def offers_def)
next
  case (snoc a ms)
  obtain now d ts where a: "a = (now, d, ts)" by (cases a)
  have "run s (updates w (ms @ [a]))
      = step (run s (updates w ms)) (now, SocketMessage w (Json (Update d ts)))"
    by (simp add: run_def updates_def a)
  also have "\<dots> = scheduleBatch (foldl offer (s\<lparr>pendingUpdates := offers (pendingUpdates s) (offered ms)\<rparr>) d)"
    using snoc by (simp add: step_def ws_onmessage_def)
  also have "\<dots> = s\<lparr>pendingUpdates := offers (pendingUpdates s) (offered (ms @ [a]))\<rparr>"
    using snoc.prems by (simp add: foldl_offer scheduleBatch_def offered_def a offers_append)
  finally show ?case .
qed

text \<open>The first update message of a window schedules the flush, once.\<close>

lemma updates_window:
  assumes "batchTimer s = None" and "ms \<noteq> []"
  shows "run s (updates w ms) =
     s\<lparr>pendingUpdates := offers (pendingUpdates s) (offered ms),
       batchTimer := Some (nextTimer s),
       timers := timers s @ [\<lparr>handle = nextTimer s, callback = FlushBatch,
                                delay = BATCH_INTERVAL, repeating = False\<rparr>],
       nextTimer := Suc (nextTimer s)\<rparr>"
proof -
  from assms(2) obtain a rest where ms: "ms = a # rest" by (cases ms) auto
  obtain now d ts where a: "a = (now, d, ts)" by (cases a)
  let ?s1 = "step s (now, SocketMessage w (Json (Update d ts)))"
  have s1: "?s1 = s\<lparr>pendingUpdates := offers (pendingUpdates s) d,
       batchTimer := Some (nextTimer s),
       timers := timers s @ [\<lparr>handle = nextTimer s, callback = FlushBatch,
                                delay = BATCH_INTERVAL, repeating = False\<rparr>],
       nextTimer := Suc (nextTimer s)\<rparr>"
    using assms(1) by (simp add: step_def ws_onmessage_def foldl_offer scheduleBatch_def setTimeout_def)
  have r: "run s (updates w ms) = run ?s1 (updates w rest)"
    by (simp add: run_def updates_def ms a)
  have "batchTimer ?s1 \<noteq> None" unfolding s1 by simp
  from updates_scheduled [OF this, of w rest] show ?thesis
    unfolding r unfolding s1 by (simp add: offered_def ms a offers_append)
qed

lemma find_fresh:
  "\<forall>t \<in> set ts. handle t \<noteq> h \<Longrightarrow> handle x = h \<Longrightarrow>
   find (\<lambda>t. handle t = h) (ts @ [x]) = Some x \<and> filter (\<lambda>t. handle t \<noteq> h) (ts @ [x]) = ts"
  by (induction ts) auto

subsection \<open>The coalescing window\<close>

text \<open>
  The windows that do open. Take a worker with no flush scheduled and nothing pending,
  and let update messages with at least one row arrive. Nothing is posted while they arrive and one flush timer,
  with delay \<open>BATCH_INTERVAL\<close>, is scheduled by the first of them. When that timer fires,
  every port is posted exactly one \<open>update\<close> message, the same batch for all, and the
  worker is again as before the window (but for the log and the next timer handle). The
  batch holds one row per symbol offered, no symbol twice, and the row of a symbol is the
  last one offered for it. (Ports are assumed not to throw, and timer handles to be new.)
\<close>

lemma coalescing_window:
  assumes idle: "batchTimer s = None" "pendingUpdates s = []"
    and fresh: "fresh_handles s"
    and ok: "deliverable s (map_keys (ports s))"
    and some: "offered ms \<noteq> []"
  shows "let s1 = run s (updates w ms); batch = map_values (pendingUpdates s1) in
      out s1 = out s
    \<and> batchTimer s1 = Some (nextTimer s)
    \<and> timers s1 = timers s @ [\<lparr>handle = nextTimer s, callback = FlushBatch,
                                 delay = BATCH_INTERVAL, repeating = False\<rparr>]
    \<and> step s1 (now, TimerFires (nextTimer s))
        = s\<lparr>nextTimer := Suc (nextTimer s),
            out := out s @ map (\<lambda>p. PostMessage p (Update batch now)) (map_keys (ports s))\<rparr>
    \<and> distinct (map symbol batch)
    \<and> symbol ` set batch = symbol ` set (offered ms)
    \<and> (\<forall>r \<in> set batch. r = last (filter (\<lambda>x. symbol x = symbol r) (offered ms)))"
proof -
  let ?T = "\<lparr>handle = nextTimer s, callback = FlushBatch, delay = BATCH_INTERVAL, repeating = False\<rparr>"
  let ?P = "offers [] (offered ms)"
  let ?s1 = "s\<lparr>pendingUpdates := ?P, batchTimer := Some (nextTimer s),
                timers := timers s @ [?T], nextTimer := Suc (nextTimer s)\<rparr>"
  from some have "ms \<noteq> []" by (auto simp: offered_def)
  from updates_window [OF idle(1) this, of w] idle(2)
  have s1: "run s (updates w ms) = ?s1" by simp
  have P: "?P \<noteq> []" using some by (rule offers_nonempty)
  from fresh have "\<forall>t \<in> set (timers s). handle t \<noteq> nextTimer s"
    by (auto simp: fresh_handles_def)
  from find_fresh [OF this, of ?T]
  have f: "find (\<lambda>t. handle t = nextTimer s) (timers s @ [?T]) = Some ?T"
    and g: "filter (\<lambda>t. handle t \<noteq> nextTimer s) (timers s @ [?T]) = timers s"
    by simp_all
  let ?s2 = "s\<lparr>pendingUpdates := ?P, batchTimer := Some (nextTimer s),
                nextTimer := Suc (nextTimer s)\<rparr>"
  have c: "clearTimeout ?s1 (nextTimer s) = ?s2"
    unfolding clearTimeout_def using g by simp
  have del: "\<forall>p \<in> set (map_keys (ports ?s2)). p \<notin> faulty ?s2"
    using ok by (simp add: deliverable_def)
  have fl: "flushBatch ?s2 now =
      Returned (s\<lparr>nextTimer := Suc (nextTimer s),
            out := out s @ map (\<lambda>p. PostMessage p (Update (map_values ?P) now)) (map_keys (ports s))\<rparr>)"
    unfolding flushBatch_def broadcast_def broadcast_loop_ok [OF del]
    using P idle by simp
  have fire: "timer_fired ?s1 (nextTimer s) now = flushBatch ?s2 now"
    unfolding timer_fired_def using f c by simp
  have flushed: "step ?s1 (now, TimerFires (nextTimer s))
        = s\<lparr>nextTimer := Suc (nextTimer s),
            out := out s @ map (\<lambda>p. PostMessage p (Update (map_values ?P) now)) (map_keys (ports s))\<rparr>"
    by (simp add: step_def fire fl)
  from batch_last_write_wins [of "map_values ?P" "offered ms"]
  have lww: "distinct (map symbol (map_values ?P))
       \<and> symbol ` set (map_values ?P) = symbol ` set (offered ms)
       \<and> (\<forall>r \<in> set (map_values ?P). r = last (filter (\<lambda>x. symbol x = symbol r) (offered ms)))"
    by simp
  have pend: "pendingUpdates ?s1 = ?P" by simp
  show ?thesis
    unfolding s1 Let_def pend using flushed lww by simp
qed

text \<open>
  Two tabs; three update messages offer AAPL at 101, 102 and 103 and MSFT once. The flush
  posts one batch to each tab, with AAPL at 103.
\<close>

lemma coalescing_window_example:
  "batchTimer two_tabs = None \<and> pendingUpdates two_tabs = [] \<and> fresh_handles two_tabs
   \<and> deliverable two_tabs (map_keys (ports two_tabs))
   \<and> offered [(40, [aapl 101, msft 51], 39), (45, [aapl 102], 44), (50, [aapl 103], 49)] \<noteq> []
   \<and> step (run two_tabs
             (updates 0 [(40, [aapl 101, msft 51], 39), (45, [aapl 102], 44), (50, [aapl 103], 49)]))
       (57, TimerFires (nextTimer two_tabs))
      = two_tabs\<lparr>nextTimer := Suc (nextTimer two_tabs),
          out := out two_tabs @ [PostMessage 1 (Update [aapl 103, msft 51] 57),
                                 PostMessage 2 (Update [aapl 103, msft 51] 57)]\<rparr>"
proof -
  have h1: "batchTimer two_tabs = None" by (simp add: scenario_defs worker_defs)
  have h2: "pendingUpdates two_tabs = []" by (simp add: scenario_defs worker_defs)
  have h3: "fresh_handles two_tabs" by (simp add: fresh_handles_def scenario_defs worker_defs)
  have h4: "deliverable two_tabs (map_keys (ports two_tabs))"
    by (simp add: deliverable_def scenario_defs worker_defs)
  have h5: "offered [(40, [aapl 101, msft 51], 39), (45, [aapl 102], 44), (50, [aapl 103], 49)] \<noteq> []"
    by (simp add: offered_def)
  have keys: "map_keys (ports two_tabs) = [1, 2]" by (simp add: scenario_defs worker_defs)
  have batch: "map_values (pendingUpdates (run two_tabs
      (updates 0 [(40, [aapl 101, msft 51], 39), (45, [aapl 102], 44), (50, [aapl 103], 49)])))
      = [aapl 103, msft 51]"
    by (simp add: scenario_defs worker_defs)
  from coalescing_window [OF h1 h2 h3 h4 h5, of 0 57]
  have "step (run two_tabs
             (updates 0 [(40, [aapl 101, msft 51], 39), (45, [aapl 102], 44), (50, [aapl 103], 49)]))
       (57, TimerFires (nextTimer two_tabs))
      = two_tabs\<lparr>nextTimer := Suc (nextTimer two_tabs),
          out := out two_tabs @ [PostMessage 1 (Update [aapl 103, msft 51] 57),
                                 PostMessage 2 (Update [aapl 103, msft 51] 57)]\<rparr>"
    unfolding Let_def batch keys by simp
  with h1 h2 h3 h4 h5 show ?thesis by blast
qed

text \<open>
  C1. An update message with no rows schedules the flush timer all the same. When that
  timer fires, \<open>flushBatch\<close> returns at its test for an empty map, before
  \<open>batchTimer = null\<close>, so the handle of the timer that is gone stays in \<open>batchTimer\<close>. From
  then on \<open>scheduleBatch\<close> returns at "already scheduled": the rows of later update
  messages are stored in \<open>pendingUpdates\<close>, no timer is scheduled for them and nothing is
  posted. Here AAPL is offered at 101 and then at 102 after such a message: the runtime
  holds only the heartbeat interval, the log is as before, and the row waits.
\<close>

theorem empty_update_blocks_flush:
  "batchTimer tab_after_empty_update = Some 2
   \<and> pendingUpdates tab_after_empty_update = []
   \<and> timers tab_after_empty_update
       = [\<lparr>handle = 1, callback = Heartbeat, delay = 10000, repeating = True\<rparr>]
   \<and> timers (run tab_after_empty_update (updates 0 [(60, [aapl 101], 59), (65, [aapl 102], 64)]))
       = [\<lparr>handle = 1, callback = Heartbeat, delay = 10000, repeating = True\<rparr>]
   \<and> out (run tab_after_empty_update (updates 0 [(60, [aapl 101], 59), (65, [aapl 102], 64)]))
       = out tab_after_empty_update
   \<and> map_values (pendingUpdates
         (run tab_after_empty_update (updates 0 [(60, [aapl 101], 59), (65, [aapl 102], 64)])))
       = [aapl 102]
   \<and> batchTimer (run tab_after_empty_update (updates 0 [(60, [aapl 101], 59), (65, [aapl 102], 64)]))
       = Some 2"
  by (simp add: scenario_defs worker_defs)

text \<open>
  The same for every state with a handle left in \<open>batchTimer\<close> and every list of update
  messages: only \<open>pendingUpdates\<close> changes.
\<close>

lemma stale_batchTimer_only_stores:
  "batchTimer s \<noteq> None \<Longrightarrow>
   (run s (updates w ms))\<lparr>pendingUpdates := pendingUpdates s\<rparr> = s"
  by (simp add: updates_scheduled)

subsection \<open>One upstream connection\<close>

lemma onconnect_sockets:
  "sockets (state_of (onconnect s p now)) = sockets s @ (if ws s = None then [CONNECTING] else [])
   \<and> ws (state_of (onconnect s p now)) = (if ws s = None then Some (length (sockets s)) else ws s)
   \<and> filter (\<lambda>e. \<exists>w. e = NewWebSocket w) (out (state_of (onconnect s p now)))
       = filter (\<lambda>e. \<exists>w. e = NewWebSocket w) (out s)
         @ (if ws s = None then [NewWebSocket (length (sockets s))] else [])"
  by (auto simp: onconnect_def connect_def startHeartbeatMonitoring_def setInterval_def
      postMessage_def Let_def split: option.splits)

text \<open>Once \<open>ws\<close> is set, ports that connect create no socket.\<close>

lemma attaches_connected:
  "ws s \<noteq> None \<Longrightarrow>
   sockets (run s (attaches ps)) = sockets s \<and> ws (run s (attaches ps)) = ws s
   \<and> filter (\<lambda>e. \<exists>w. e = NewWebSocket w) (out (run s (attaches ps)))
       = filter (\<lambda>e. \<exists>w. e = NewWebSocket w) (out s)"
proof (induction ps arbitrary: s)
  case Nil
  then show ?case by (simp add: run_def attaches_def)
next
  case (Cons a ps)
  obtain now p where a: "a = (now, p)" by (cases a)
  let ?s1 = "state_of (onconnect s p now)"
  have r: "run s (attaches (a # ps)) = run ?s1 (attaches ps)"
    by (simp add: run_def attaches_def step_def a)
  from Cons.prems onconnect_sockets [of s p now]
  have s1: "sockets ?s1 = sockets s" "ws ?s1 = ws s"
    "filter (\<lambda>e. \<exists>w. e = NewWebSocket w) (out ?s1) = filter (\<lambda>e. \<exists>w. e = NewWebSocket w) (out s)"
    by simp_all
  with Cons.prems have "ws ?s1 \<noteq> None" by simp
  from Cons.IH [OF this] show ?case unfolding r s1 by simp
qed

text \<open>
  C2. Let one or more ports connect one after the other, with nothing in between, from
  any state. If \<open>ws\<close> was \<open>null\<close>, as in a worker that just started, exactly one socket is
  created, by the first of them; if \<open>ws\<close> was set, none is. The number of ports does not
  matter, and neither does whether a port's \<open>postMessage\<close> throws.
\<close>

theorem one_upstream_connection:
  assumes "ps \<noteq> []"
  shows "length (sockets (run s (attaches ps)))
           = length (sockets s) + (if ws s = None then 1 else 0)
       \<and> filter (\<lambda>e. \<exists>w. e = NewWebSocket w) (out (run s (attaches ps)))
           = filter (\<lambda>e. \<exists>w. e = NewWebSocket w) (out s)
             @ (if ws s = None then [NewWebSocket (length (sockets s))] else [])"
proof -
  from assms obtain a rest where ps: "ps = a # rest" by (cases ps) auto
  obtain now p where a: "a = (now, p)" by (cases a)
  let ?s1 = "state_of (onconnect s p now)"
  have r: "run s (attaches ps) = run ?s1 (attaches rest)"
    by (simp add: run_def attaches_def step_def a ps)
  have "ws ?s1 \<noteq> None" using onconnect_sockets [of s p now] by auto
  from attaches_connected [OF this, of rest] onconnect_sockets [of s p now]
  show ?thesis unfolding r by simp
qed

text \<open>Three tabs connect to a new worker: one socket.\<close>

theorem one_upstream_connection_witness:
  "[(0, 1), (5, 2), (9, 3)] \<noteq> ([] :: (int \<times> port) list)
   \<and> length (sockets (run (init_state {}) (attaches [(0, 1), (5, 2), (9, 3)]))) = 1
   \<and> filter (\<lambda>e. \<exists>w. e = NewWebSocket w) (out (run (init_state {}) (attaches [(0, 1), (5, 2), (9, 3)])))
       = [NewWebSocket 0]"
proof -
  have h: "[(0, 1), (5, 2), (9, 3)] \<noteq> ([] :: (int \<times> port) list)" by simp
  from one_upstream_connection [OF h, of "init_state {}"] show ?thesis
    by (simp add: init_state_def)
qed

subsection \<open>A port whose postMessage throws\<close>

lemma removePort_keeps:
  "faulty (removePort s q) = faulty s \<and> posted (out (removePort s q)) = posted (out s)"
  by (auto simp: removePort_def checkCleanup_def clearInterval_def clearTimeout_def ws_close_def
      posted_append Let_def split: option.splits)

lemma ports_removePort: "ports (removePort s q) = map_delete (ports s) q"
proof -
  have "map_delete (ports s) q = ports s" if "\<not> map_has (ports s) q"
  proof -
    from that have "q \<notin> fst ` set (ports s)"
      by (simp add: map_has_def map_of_eq_None_iff)
    then show ?thesis by (auto simp: map_delete_def filter_id_conv)
  qed
  then show ?thesis
    by (auto simp: removePort_def checkCleanup_def clearInterval_def clearTimeout_def ws_close_def
        Let_def split: option.splits)
qed

text \<open>
  The other worker's \<open>broadcast\<close> isolates a failure: every port that does not throw is
  posted the message, and exactly the ports that throw leave the registry.
\<close>

lemma broadcast_each_isolates:
  "posted (out (broadcast_each ps m s))
     = posted (out s) @ map (\<lambda>p. (p, m)) (filter (\<lambda>p. p \<notin> faulty s) ps)
   \<and> ports (broadcast_each ps m s)
     = filter (\<lambda>e. \<not> (fst e \<in> set ps \<and> fst e \<in> faulty s)) (ports s)
   \<and> faulty (broadcast_each ps m s) = faulty s"
proof (induction ps arbitrary: s)
  case Nil
  then show ?case by simp
next
  case (Cons p ps)
  show ?case
  proof (cases "p \<in> faulty s")
    case True
    have step: "broadcast_each (p # ps) m s = broadcast_each ps m (removePort s p)"
      using True by (simp add: postMessage_def)
    have "filter (\<lambda>e. \<not> (fst e \<in> set ps \<and> fst e \<in> faulty s)) (map_delete (ports s) p)
        = filter (\<lambda>e. \<not> (fst e \<in> set (p # ps) \<and> fst e \<in> faulty s)) (ports s)"
      using True by (auto simp: map_delete_def intro: filter_cong)
    with Cons.IH [of "removePort s p"] True show ?thesis
      unfolding step by (simp add: removePort_keeps ports_removePort)
  next
    case False
    have step: "broadcast_each (p # ps) m s
        = broadcast_each ps m (s\<lparr>out := out s @ [PostMessage p m]\<rparr>)"
      using False by (simp add: postMessage_def)
    have "filter (\<lambda>e. \<not> (fst e \<in> set ps \<and> fst e \<in> faulty s)) (ports s)
        = filter (\<lambda>e. \<not> (fst e \<in> set (p # ps) \<and> fst e \<in> faulty s)) (ports s)"
      using False by (auto intro: filter_cong)
    with Cons.IH [of "s\<lparr>out := out s @ [PostMessage p m]\<rparr>"] False show ?thesis
      unfolding step by (simp add: posted_append)
  qed
qed

lemma broadcast_part_000_isolates:
  "posted (out (broadcast_part_000 s m None))
     = posted (out s) @ map (\<lambda>p. (p, m)) (filter (\<lambda>p. p \<notin> faulty s) (map_keys (ports s)))
   \<and> ports (broadcast_part_000 s m None) = filter (\<lambda>e. fst e \<notin> faulty s) (ports s)"
proof -
  have "filter (\<lambda>e. \<not> (fst e \<in> set (map_keys (ports s)) \<and> fst e \<in> faulty s)) (ports s)
      = filter (\<lambda>e. fst e \<notin> faulty s) (ports s)"
    by (auto simp: map_keys_def intro: filter_cong)
  with broadcast_each_isolates [of "map_keys (ports s)" m s] show ?thesis
    by (simp add: broadcast_part_000_def)
qed

text \<open>
  C3. In market-worker.js the loop of \<open>broadcast\<close> has no \<open>try\<close>. With tabs A = 1 and
  B = 2 registered in this order and \<open>postMessage\<close> of A throwing, \<open>broadcast\<close> throws at
  A and leaves the state as it was: B is posted nothing and A stays in \<open>ports\<close>. The other
  worker's \<open>broadcast\<close>, on the same state, posts to B and removes A.
\<close>

theorem broadcast_stops_at_failure:
  "map_keys (ports tabs_a_b) = [1, 2]
   \<and> faulty tabs_a_b = {1}
   \<and> broadcast tabs_a_b Connected = Thrown tabs_a_b
   \<and> posted (out (broadcast_part_000 tabs_a_b Connected None))
       = posted (out tabs_a_b) @ [(2, Connected)]
   \<and> map_keys (ports (broadcast_part_000 tabs_a_b Connected None)) = [2]"
  by (simp add: scenario_defs worker_defs broadcast_part_000_def)

subsection \<open>The last port leaves\<close>

text \<open>
  C4 does not hold as stated. One tab is connected and an update waits for the batch
  timer; the tab sends \<open>disconnect\<close>. The registry is empty and the flush timer is still
  scheduled.
\<close>

theorem flush_timer_survives_last_detach:
  "map_keys (ports tab_pending) = [1]
   \<and> ports (step tab_pending (60, PortMessage 1 Disconnect)) = []
   \<and> timers (step tab_pending (60, PortMessage 1 Disconnect))
       = [\<lparr>handle = 2, callback = FlushBatch, delay = BATCH_INTERVAL, repeating = False\<rparr>]"
  by (simp add: scenario_defs worker_defs)

text \<open>
  C4, amended. When the only registered port is removed, the timer whose handle is in
  \<open>reconnectTimeout\<close> and the interval whose handle is in \<open>heartbeatInterval\<close> are cleared
  and both variables become \<open>null\<close>; the socket in \<open>ws\<close> gets \<open>close()\<close>, so that it is
  neither open nor connecting, and \<open>ws\<close> becomes \<open>null\<close>. Every other timer stays: the
  batch timer and the pending updates are as before.
\<close>

theorem last_detach_cleanup:
  assumes "ports s = [(p, info)]"
  shows "ports (removePort s p) = []
    \<and> ws (removePort s p) = None
    \<and> reconnectTimeout (removePort s p) = None
    \<and> heartbeatInterval (removePort s p) = None
    \<and> timers (removePort s p)
        = filter (\<lambda>t. Some (handle t) \<noteq> reconnectTimeout s \<and> Some (handle t) \<noteq> heartbeatInterval s)
            (timers s)
    \<and> out (removePort s p) = out s @ (case ws s of None \<Rightarrow> [] | Some w \<Rightarrow> [Close w])
    \<and> (case ws s of None \<Rightarrow> True
        | Some w \<Rightarrow> ready (removePort s p) w \<noteq> OPEN \<and> ready (removePort s p) w \<noteq> CONNECTING)
    \<and> batchTimer (removePort s p) = batchTimer s
    \<and> pendingUpdates (removePort s p) = pendingUpdates s"
  using assms
  by (auto simp: removePort_def checkCleanup_def map_has_def map_delete_def clearInterval_def
      clearTimeout_def ws_close_def ready_def Let_def conj_commute split: option.splits)

theorem last_detach_cleanup_witness:
  "ports tab_pending = [(1, \<lparr>port_id = 1, lastPong = 0\<rparr>)]
   \<and> ws (removePort tab_pending 1) = None
   \<and> heartbeatInterval (removePort tab_pending 1) = None
   \<and> timers (removePort tab_pending 1)
       = [\<lparr>handle = 2, callback = FlushBatch, delay = BATCH_INTERVAL, repeating = False\<rparr>]
   \<and> out (removePort tab_pending 1) = out tab_pending @ [Close 0]
   \<and> batchTimer (removePort tab_pending 1) = Some 2"
proof -
  have h: "ports tab_pending = [(1, \<lparr>port_id = 1, lastPong = 0\<rparr>)]"
    by (simp add: scenario_defs worker_defs)
  have before: "timers tab_pending
      = [\<lparr>handle = 1, callback = Heartbeat, delay = 10000, repeating = True\<rparr>,
         \<lparr>handle = 2, callback = FlushBatch, delay = BATCH_INTERVAL, repeating = False\<rparr>]"
    "reconnectTimeout tab_pending = None" "heartbeatInterval tab_pending = Some 1"
    "ws tab_pending = Some 0" "batchTimer tab_pending = Some 2"
    by (simp_all add: scenario_defs worker_defs)
  from last_detach_cleanup [OF h] h show ?thesis
    unfolding before by simp
qed

subsection \<open>A port that joins late\<close>

text \<open>
  C5. A port connects while \<open>ws\<close> is set and initial data is stored, and its
  \<open>postMessage\<close> does not throw. The handler registers the port, posts it the stored
  initial data and then \<open>connected\<close> if the socket in \<open>ws\<close> is open, \<open>disconnected\<close> if not.
  Nothing else changes: no socket is created and nothing is sent to the server.
\<close>

theorem late_joiner_gets_snapshot:
  assumes "ws s = Some w" and "lastInitialData s = Some snapshot" and "port \<notin> faulty s"
  shows "onconnect s port now =
     Returned (s\<lparr>nextPortId := Suc (nextPortId s),
                 ports := map_set (ports s) port \<lparr>port_id = nextPortId s, lastPong = now\<rparr>,
                 out := out s @ [PostMessage port snapshot,
                                 PostMessage port (if ready s w = OPEN then Connected
                                                   else Disconnected)]\<rparr>)"
  using assms by (simp add: onconnect_def postMessage_def ws_open_def ready_def Let_def)

theorem late_joiner_gets_snapshot_witness:
  "ws tab_connected = Some 0
   \<and> lastInitialData tab_connected = Some (Initial [aapl 100, msft 50])
   \<and> 2 \<notin> faulty tab_connected
   \<and> onconnect tab_connected 2 30 =
       Returned (tab_connected\<lparr>nextPortId := 3,
                   ports := [(1, \<lparr>port_id = 1, lastPong = 0\<rparr>), (2, \<lparr>port_id = 2, lastPong = 30\<rparr>)],
                   out := out tab_connected @ [PostMessage 2 (Initial [aapl 100, msft 50]),
                                               PostMessage 2 Connected]\<rparr>)"
proof -
  have h1: "ws tab_connected = Some 0" by (simp add: scenario_defs worker_defs)
  have h2: "lastInitialData tab_connected = Some (Initial [aapl 100, msft 50])"
    by (simp add: scenario_defs worker_defs)
  have h3: "2 \<notin> faulty tab_connected" by (simp add: scenario_defs worker_defs)
  have st: "nextPortId tab_connected = 2" "ports tab_connected = [(1, \<lparr>port_id = 1, lastPong = 0\<rparr>)]"
    "ready tab_connected 0 = OPEN"
    by (simp_all add: scenario_defs worker_defs)
  from late_joiner_gets_snapshot [OF h1 h2 h3, of 30] h1 h2 h3 show ?thesis
    unfolding st by simp
qed

subsection \<open>The socket closes\<close>

text \<open>What the close handler does when no registered port throws.\<close>

lemma ws_onclose_effects:
  assumes "deliverable s (map_keys (ports s))"
  shows "returned (ws_onclose s now)
    \<and> out (state_of (ws_onclose s now))
        = out s @ map (\<lambda>p. PostMessage p Disconnected) (map_keys (ports s))
          @ (if batchTimer s \<noteq> None \<and> pendingUpdates s \<noteq> []
             then map (\<lambda>p. PostMessage p (Update (map_values (pendingUpdates s)) now))
                    (map_keys (ports s))
             else [])
    \<and> timers (state_of (ws_onclose s now))
        = filter (\<lambda>t. Some (handle t) \<noteq> batchTimer s) (timers s)
          @ (if ports s \<noteq> []
             then [\<lparr>handle = nextTimer s, callback = Reconnect, delay = 2000, repeating = False\<rparr>]
             else [])
    \<and> reconnectTimeout (state_of (ws_onclose s now))
        = (if ports s \<noteq> [] then Some (nextTimer s) else reconnectTimeout s)
    \<and> ws (state_of (ws_onclose s now)) = (if ports s \<noteq> [] then ws s else None)"
proof -
  let ?s1 = "s\<lparr>out := out s @ map (\<lambda>p. PostMessage p Disconnected) (map_keys (ports s))\<rparr>"
  from assms have b1: "broadcast s Disconnected = Returned ?s1"
    by (simp add: broadcast_def deliverable_def broadcast_loop_ok)
  show ?thesis
  proof (cases "batchTimer s")
    case None
    then show ?thesis
      unfolding ws_onclose_def b1 by (simp add: setTimeout_def)
  next
    case (Some h)
    let ?s1c = "s\<lparr>out := out s @ map (\<lambda>p. PostMessage p Disconnected) (map_keys (ports s)),
                   timers := filter (\<lambda>t. handle t \<noteq> h) (timers s)\<rparr>"
    have cl: "clearTimeout ?s1 h = ?s1c"
      by (simp add: clearTimeout_def)
    have del: "\<forall>p \<in> set (map_keys (ports ?s1c)). p \<notin> faulty ?s1c"
      using assms by (simp add: deliverable_def)
    have fl: "flushBatch ?s1c now =
       (if pendingUpdates s = [] then Returned ?s1c
        else Returned (?s1c\<lparr>out := out ?s1c @ map (\<lambda>p. PostMessage p (Update (map_values (pendingUpdates s)) now)) (map_keys (ports s)),
                pendingUpdates := [], batchTimer := None\<rparr>))"
      unfolding flushBatch_def broadcast_def broadcast_loop_ok [OF del]
      by simp
    have flt: "filter (\<lambda>t. handle t \<noteq> h) (timers s)
        = filter (\<lambda>t. Some (handle t) \<noteq> batchTimer s) (timers s)"
      using Some by simp
    show ?thesis
      unfolding ws_onclose_def b1 using Some flt
      by (simp add: cl fl setTimeout_def)
  qed
qed

lemma ws_onclose_sockets: "sockets (state_of (ws_onclose s now)) = sockets s"
proof -
  have loop: "sockets (state_of (broadcast_loop ps m s)) = sockets s" for ps m s
    by (induction ps arbitrary: s) (auto simp: postMessage_def)
  have flush: "sockets (state_of (flushBatch s now)) = sockets s" for s
  proof (cases "broadcast s (Update (map_values (pendingUpdates s)) now)")
    case (Returned s')
    with loop [of "map_keys (ports s)" "Update (map_values (pendingUpdates s)) now" s]
    show ?thesis by (simp add: flushBatch_def broadcast_def)
  next
    case (Thrown s')
    with loop [of "map_keys (ports s)" "Update (map_values (pendingUpdates s)) now" s]
    show ?thesis by (simp add: flushBatch_def broadcast_def)
  qed
  show ?thesis
  proof (cases "broadcast s Disconnected")
    case (Thrown s1)
    with loop [of "map_keys (ports s)" Disconnected s] show ?thesis
      by (simp add: ws_onclose_def broadcast_def)
  next
    case (Returned s1)
    with loop [of "map_keys (ports s)" Disconnected s] have s1: "sockets s1 = sockets s"
      by (simp add: broadcast_def)
    show ?thesis
    proof (cases "batchTimer s1")
      case None
      with Returned s1 show ?thesis by (simp add: ws_onclose_def setTimeout_def)
    next
      case (Some h)
      have c: "sockets (state_of (flushBatch (clearTimeout s1 h) now)) = sockets s"
        using flush [of "clearTimeout s1 h"] s1 by (simp add: clearTimeout_def)
      show ?thesis
      proof (cases "flushBatch (clearTimeout s1 h) now")
        case flushed: (Returned s2)
        with c Returned Some show ?thesis
          by (simp add: ws_onclose_def setTimeout_def)
      next
        case (Thrown s2)
        with c Returned Some show ?thesis
          by (simp add: ws_onclose_def)
      qed
    qed
  qed
qed

text \<open>
  C6. When the socket closes and no registered port throws, the handler posts
  \<open>disconnected\<close> to every port, then flushes a scheduled batch, and then: with at least
  one port registered it schedules one new one-shot timer with delay 2000 ms, stores its
  handle in \<open>reconnectTimeout\<close> and keeps \<open>ws\<close>; with no port registered it schedules
  nothing and sets \<open>ws\<close> to \<open>null\<close>. The timer is the reconnect attempt: when it fires (its
  handle being new), it leaves the runtime and \<open>connect\<close> creates a socket, which \<open>ws\<close>
  then holds.
\<close>

theorem close_reconnects_iff_subscribed:
  assumes "deliverable s (map_keys (ports s))"
  shows "returned (ws_onclose s now)
    \<and> out (state_of (ws_onclose s now))
        = out s @ map (\<lambda>p. PostMessage p Disconnected) (map_keys (ports s))
          @ (if batchTimer s \<noteq> None \<and> pendingUpdates s \<noteq> []
             then map (\<lambda>p. PostMessage p (Update (map_values (pendingUpdates s)) now))
                    (map_keys (ports s))
             else [])
    \<and> timers (state_of (ws_onclose s now))
        = filter (\<lambda>t. Some (handle t) \<noteq> batchTimer s) (timers s)
          @ (if ports s \<noteq> []
             then [\<lparr>handle = nextTimer s, callback = Reconnect, delay = 2000, repeating = False\<rparr>]
             else [])
    \<and> reconnectTimeout (state_of (ws_onclose s now))
        = (if ports s \<noteq> [] then Some (nextTimer s) else reconnectTimeout s)
    \<and> ws (state_of (ws_onclose s now)) = (if ports s \<noteq> [] then ws s else None)
    \<and> (ports s \<noteq> [] \<and> fresh_handles s \<longrightarrow>
         sockets (step (state_of (ws_onclose s now)) (later, TimerFires (nextTimer s)))
           = sockets s @ [CONNECTING]
         \<and> ws (step (state_of (ws_onclose s now)) (later, TimerFires (nextTimer s)))
           = Some (length (sockets s))
         \<and> out (step (state_of (ws_onclose s now)) (later, TimerFires (nextTimer s)))
           = out (state_of (ws_onclose s now)) @ [NewWebSocket (length (sockets s))]
         \<and> timers (step (state_of (ws_onclose s now)) (later, TimerFires (nextTimer s)))
           = filter (\<lambda>t. Some (handle t) \<noteq> batchTimer s) (timers s))"
proof -
  let ?s' = "state_of (ws_onclose s now)"
  let ?R = "\<lparr>handle = nextTimer s, callback = Reconnect, delay = 2000, repeating = False\<rparr>"
  let ?old = "filter (\<lambda>t. Some (handle t) \<noteq> batchTimer s) (timers s)"
  note eff = ws_onclose_effects [OF assms, of now]
  have fire: "sockets (step ?s' (later, TimerFires (nextTimer s))) = sockets s @ [CONNECTING]
         \<and> ws (step ?s' (later, TimerFires (nextTimer s))) = Some (length (sockets s))
         \<and> out (step ?s' (later, TimerFires (nextTimer s)))
           = out ?s' @ [NewWebSocket (length (sockets s))]
         \<and> timers (step ?s' (later, TimerFires (nextTimer s))) = ?old"
    if ne: "ports s \<noteq> []" and fresh: "fresh_handles s"
  proof -
    from eff ne have t: "timers ?s' = ?old @ [?R]" by simp
    from fresh have "\<forall>t \<in> set ?old. handle t \<noteq> nextTimer s"
      by (auto simp: fresh_handles_def)
    from find_fresh [OF this, of ?R]
    have f: "find (\<lambda>t. handle t = nextTimer s) (timers ?s') = Some ?R"
      and g: "filter (\<lambda>t. handle t \<noteq> nextTimer s) (timers ?s') = ?old"
      unfolding t by simp_all
    have "timer_fired ?s' (nextTimer s) later
        = Returned (connect (?s'\<lparr>timers := ?old\<rparr>))"
      unfolding timer_fired_def f by (simp add: clearTimeout_def g)
    then show ?thesis
      by (simp add: step_def connect_def ws_onclose_sockets)
  qed
  from eff fire show ?thesis by blast
qed

text \<open>
  One tab and an update pending when the socket closes at 70: the close posts
  \<open>disconnected\<close> and the batch, and a reconnect timer replaces the flush timer; when it
  fires at 2070 a second socket is created.
\<close>

theorem close_reconnects_iff_subscribed_witness:
  "deliverable (tab_pending\<lparr>sockets := [CLOSED]\<rparr>) (map_keys (ports (tab_pending\<lparr>sockets := [CLOSED]\<rparr>)))
   \<and> returned (ws_onclose (tab_pending\<lparr>sockets := [CLOSED]\<rparr>) 70)
   \<and> out (state_of (ws_onclose (tab_pending\<lparr>sockets := [CLOSED]\<rparr>) 70))
       = out tab_pending @ [PostMessage 1 Disconnected, PostMessage 1 (Update [aapl 101] 70)]
   \<and> timers (state_of (ws_onclose (tab_pending\<lparr>sockets := [CLOSED]\<rparr>) 70))
       = [\<lparr>handle = 1, callback = Heartbeat, delay = 10000, repeating = True\<rparr>,
          \<lparr>handle = 3, callback = Reconnect, delay = 2000, repeating = False\<rparr>]
   \<and> reconnectTimeout (state_of (ws_onclose (tab_pending\<lparr>sockets := [CLOSED]\<rparr>) 70)) = Some 3
   \<and> ws (state_of (ws_onclose (tab_pending\<lparr>sockets := [CLOSED]\<rparr>) 70)) = Some 0
   \<and> sockets (step (state_of (ws_onclose (tab_pending\<lparr>sockets := [CLOSED]\<rparr>) 70)) (2070, TimerFires 3))
       = [CLOSED, CONNECTING]
   \<and> ws (step (state_of (ws_onclose (tab_pending\<lparr>sockets := [CLOSED]\<rparr>) 70)) (2070, TimerFires 3))
       = Some 1
   \<and> timers (step (state_of (ws_onclose (tab_pending\<lparr>sockets := [CLOSED]\<rparr>) 70)) (2070, TimerFires 3))
       = [\<lparr>handle = 1, callback = Heartbeat, delay = 10000, repeating = True\<rparr>]"
proof -
  let ?s = "tab_pending\<lparr>sockets := [CLOSED]\<rparr>"
  have h: "deliverable ?s (map_keys (ports ?s))"
    by (simp add: deliverable_def scenario_defs worker_defs)
  have st: "map_keys (ports tab_pending) = [1]" "batchTimer tab_pending = Some 2"
    "map_values (pendingUpdates tab_pending) = [aapl 101]"
    "timers tab_pending
      = [\<lparr>handle = 1, callback = Heartbeat, delay = 10000, repeating = True\<rparr>,
         \<lparr>handle = 2, callback = FlushBatch, delay = BATCH_INTERVAL, repeating = False\<rparr>]"
    "nextTimer tab_pending = 3" "ws tab_pending = Some 0"
    by (simp_all add: scenario_defs worker_defs)
  have ne: "ports tab_pending \<noteq> []" "pendingUpdates tab_pending \<noteq> []"
    by (simp_all add: scenario_defs worker_defs)
  have fresh: "fresh_handles ?s"
    by (simp add: fresh_handles_def st)
  from close_reconnects_iff_subscribed [OF h, of 70 2070] h fresh show ?thesis
    using ne by (simp add: st)
qed

subsection \<open>Commands from a port\<close>

text \<open>
  C8. A registered port sends \<open>setFrequency\<close> or \<open>setBatchSize\<close>. The command is sent to
  the server exactly when \<open>ws\<close> is set and its socket is open; otherwise nothing is sent.
  In both cases no variable of the worker changes (nothing is queued); only the log of
  what was sent grows. The handler returns without an exception when no other port's
  \<open>postMessage\<close> throws.
\<close>

theorem command_relayed_iff_open:
  assumes "map_has (ports s) port"
    and "cmd = SetFrequency f \<or> cmd = SetBatchSize mn mx"
  shows "sent_upstream (out (state_of (port_onmessage s port cmd now)))
           = sent_upstream (out s) @ (if ws_open s then [cmd] else [])
       \<and> (state_of (port_onmessage s port cmd now))\<lparr>out := out s\<rparr> = s
       \<and> (deliverable s (filter (\<lambda>p. p \<noteq> port) (map_keys (ports s)))
            \<longrightarrow> returned (port_onmessage s port cmd now))"
proof -
  from assms(1) obtain info where info: "map_get (ports s) port = Some info"
    by (auto simp: map_has_def map_get_def)
  define notice where "notice = (case cmd of SetFrequency f \<Rightarrow> FrequencyChanged f
                                | SetBatchSize a b \<Rightarrow> BatchSizeChanged a b | _ \<Rightarrow> cmd)"
  have run: "port_onmessage s port cmd now
      = notify_others (map_keys (ports s)) port notice (forward s cmd)"
    using assms(2) info by (auto simp: port_onmessage_def notice_def)
  from notify_others_frame [of "map_keys (ports s)" port notice "forward s cmd"]
  obtain ps' where fr: "state_of (port_onmessage s port cmd now)
      = (forward s cmd)\<lparr>out := out (forward s cmd) @ map (\<lambda>p. PostMessage p notice) ps'\<rparr>"
    unfolding run by blast
  have relayed: "sent_upstream (out (state_of (port_onmessage s port cmd now)))
           = sent_upstream (out s) @ (if ws_open s then [cmd] else [])"
    unfolding fr by (simp add: forward_eq sent_upstream_append sent_upstream_posts)
  have unchanged: "(state_of (port_onmessage s port cmd now))\<lparr>out := out s\<rparr> = s"
    unfolding fr by (simp add: forward_eq)
  have quiet: "deliverable s (filter (\<lambda>p. p \<noteq> port) (map_keys (ports s)))
            \<longrightarrow> returned (port_onmessage s port cmd now)"
  proof
    assume "deliverable s (filter (\<lambda>p. p \<noteq> port) (map_keys (ports s)))"
    then have "\<forall>p \<in> set (map_keys (ports s)). p \<noteq> port \<longrightarrow> p \<notin> faulty (forward s cmd)"
      by (simp add: deliverable_def forward_eq)
    from notify_others_ok [OF this] show "returned (port_onmessage s port cmd now)"
      unfolding run by simp
  qed
  from relayed unchanged quiet show ?thesis by blast
qed

text \<open>
  With the socket open the command of tab 1 reaches the server; in a worker whose socket
  is still connecting it is dropped.
\<close>

theorem command_relayed_iff_open_witness:
  "map_has (ports two_tabs) 1
   \<and> ws_open two_tabs
   \<and> sent_upstream (out (state_of (port_onmessage two_tabs 1 (SetFrequency 50) 35)))
       = [SetFrequency 50]
   \<and> (state_of (port_onmessage two_tabs 1 (SetFrequency 50) 35))\<lparr>out := out two_tabs\<rparr> = two_tabs
   \<and> returned (port_onmessage two_tabs 1 (SetFrequency 50) 35)
   \<and> map_has (ports (run (init_state {}) (attaches [(0, 1), (5, 2)]))) 1
   \<and> \<not> ws_open (run (init_state {}) (attaches [(0, 1), (5, 2)]))
   \<and> sent_upstream (out (state_of
         (port_onmessage (run (init_state {}) (attaches [(0, 1), (5, 2)])) 1 (SetFrequency 50) 8)))
       = []"
proof -
  have h1: "map_has (ports two_tabs) 1" by (simp add: scenario_defs worker_defs)
  have h2: "SetFrequency 50 = SetFrequency 50 \<or> SetFrequency 50 = SetBatchSize 0 0" by simp
  have st: "ws_open two_tabs" "sent_upstream (out two_tabs) = []"
    "deliverable two_tabs (filter (\<lambda>p. p \<noteq> 1) (map_keys (ports two_tabs)))"
    by (simp_all add: deliverable_def scenario_defs worker_defs)
  let ?c = "run (init_state {}) (attaches [(0, 1), (5, 2)])"
  have g1: "map_has (ports ?c) 1" by (simp add: scenario_defs worker_defs)
  have sc: "\<not> ws_open ?c" "sent_upstream (out ?c) = []"
    by (simp_all add: scenario_defs worker_defs)
  from command_relayed_iff_open [OF h1 h2, of 35] command_relayed_iff_open [OF g1 h2, of 8]
    h1 st g1 sc
  show ?thesis by simp
qed

text \<open>
  C9. A registered port sends \<open>setFrequency\<close> or \<open>setBatchSize\<close>, and no other port's
  \<open>postMessage\<close> throws. Then every other registered port, in the order of \<open>ports\<close>, is
  posted \<open>frequencyChanged\<close> or \<open>batchSizeChanged\<close> with the values of the command, and the
  sender is posted nothing. The state of the socket does not enter.
\<close>

theorem setting_fans_out_to_others:
  assumes "map_has (ports s) port"
    and "deliverable s (filter (\<lambda>p. p \<noteq> port) (map_keys (ports s)))"
    and "(cmd, notice) = (SetFrequency f, FrequencyChanged f)
       \<or> (cmd, notice) = (SetBatchSize mn mx, BatchSizeChanged mn mx)"
  shows "returned (port_onmessage s port cmd now)
       \<and> posted (out (state_of (port_onmessage s port cmd now)))
           = posted (out s)
             @ map (\<lambda>p. (p, notice)) (filter (\<lambda>p. p \<noteq> port) (map_keys (ports s)))"
proof -
  from assms(1) obtain info where info: "map_get (ports s) port = Some info"
    by (auto simp: map_has_def map_get_def)
  have run: "port_onmessage s port cmd now
      = notify_others (map_keys (ports s)) port notice (forward s cmd)"
    using assms(3) info by (auto simp: port_onmessage_def)
  from assms(2) have "\<forall>p \<in> set (map_keys (ports s)). p \<noteq> port \<longrightarrow> p \<notin> faulty (forward s cmd)"
    by (simp add: deliverable_def forward_eq)
  from notify_others_ok [OF this] show ?thesis
    unfolding run by (simp add: forward_eq posted_append posted_posts)
qed

text \<open>
  Two tabs are connected and the socket is still connecting. Tab 1 sets the batch size:
  tab 2 is told, tab 1 is not.
\<close>

theorem setting_fans_out_to_others_witness:
  "map_has (ports (run (init_state {}) (attaches [(0, 1), (5, 2)]))) 1
   \<and> deliverable (run (init_state {}) (attaches [(0, 1), (5, 2)]))
       (filter (\<lambda>p. p \<noteq> 1) (map_keys (ports (run (init_state {}) (attaches [(0, 1), (5, 2)])))))
   \<and> \<not> ws_open (run (init_state {}) (attaches [(0, 1), (5, 2)]))
   \<and> returned (port_onmessage (run (init_state {}) (attaches [(0, 1), (5, 2)])) 1 (SetBatchSize 5 9) 8)
   \<and> posted (out (state_of
         (port_onmessage (run (init_state {}) (attaches [(0, 1), (5, 2)])) 1 (SetBatchSize 5 9) 8)))
       = [(2, Disconnected), (2, BatchSizeChanged 5 9)]"
proof -
  let ?s = "run (init_state {}) (attaches [(0, 1), (5, 2)])"
  have h1: "map_has (ports ?s) 1" by (simp add: scenario_defs worker_defs)
  have h2: "deliverable ?s (filter (\<lambda>p. p \<noteq> 1) (map_keys (ports ?s)))"
    by (simp add: deliverable_def scenario_defs worker_defs)
  have h3: "(SetBatchSize 5 9, BatchSizeChanged 5 9) = (SetFrequency 0, FrequencyChanged 0)
       \<or> (SetBatchSize 5 9, BatchSizeChanged 5 9) = (SetBatchSize 5 9, BatchSizeChanged 5 9)"
    by simp
  have st: "\<not> ws_open ?s" "posted (out ?s) = [(2, Disconnected)]" "map_keys (ports ?s) = [1, 2]"
    by (simp_all add: scenario_defs worker_defs)
  from setting_fans_out_to_others [OF h1 h2 h3, of 8] h1 h2 st(1) show ?thesis
    unfolding st by simp
qed

subsection \<open>The heartbeat\<close>

lemma removePort_other:
  "map_delete (ports s) q \<noteq> [] \<Longrightarrow> removePort s q = s\<lparr>ports := map_delete (ports s) q\<rparr>"
proof (cases "map_has (ports s) q")
  case True
  assume "map_delete (ports s) q \<noteq> []"
  with True show ?thesis by (simp add: removePort_def checkCleanup_def)
next
  case False
  then have "q \<notin> fst ` set (ports s)"
    by (simp add: map_has_def map_of_eq_None_iff)
  then have "map_delete (ports s) q = ports s"
    by (auto simp: map_delete_def filter_id_conv)
  with False show ?thesis by (simp add: removePort_def)
qed

lemma map_of_map_delete: "q \<noteq> p \<Longrightarrow> map_of (map_delete m q) p = map_of m p"
  by (induction m) (auto simp: map_delete_def)

text \<open>Removing another port leaves a monitored port monitored.\<close>

lemma monitored_removePort:
  assumes "monitored s p a h" and "q \<noteq> p"
  shows "monitored (removePort s q) p a h"
proof -
  from assms(1) have "map_of (ports s) p \<noteq> None"
    by (auto simp: monitored_def map_get_def)
  with assms(2) have "map_of (map_delete (ports s) q) p \<noteq> None"
    by (simp add: map_of_map_delete)
  then have "map_delete (ports s) q \<noteq> []" by auto
  from removePort_other [OF this]
  have r: "removePort s q = s\<lparr>ports := map_delete (ports s) q\<rparr>" .
  have keys: "distinct (map_keys (map_delete (ports s) q))"
    using assms(1) by (simp add: monitored_def map_keys_def map_delete_def distinct_map_filter)
  have entry: "map_get (map_delete (ports s) q) p = map_get (ports s) p"
    using assms(2) by (simp add: map_get_def map_of_map_delete)
  from assms(1) show ?thesis
    unfolding r monitored_def by (simp add: keys entry)
qed

lemma monitored_post:
  "monitored s p a h \<Longrightarrow> monitored (s\<lparr>out := out s @ es\<rparr>) p a h"
  by (simp add: monitored_def)

lemma monitored_sendHeartbeats_loop:
  "monitored s p a h \<Longrightarrow> monitored (sendHeartbeats_loop es s) p a h"
proof (induction es arbitrary: s)
  case Nil
  then show ?case by simp
next
  case (Cons e es)
  obtain q i where e: "e = (q, i)" by (cases e)
  show ?case
  proof (cases "q \<in> faulty s")
    case True
    with Cons.prems have "q \<noteq> p" by (auto simp: monitored_def)
    from monitored_removePort [OF Cons.prems this]
    have "monitored (removePort s q) p a h" .
    from Cons.IH [OF this] True show ?thesis by (simp add: e postMessage_def)
  next
    case False
    from monitored_post [OF Cons.prems, of "[PostMessage q Ping]"]
    have "monitored (s\<lparr>out := out s @ [PostMessage q Ping]\<rparr>) p a h" .
    from Cons.IH [OF this] False show ?thesis by (simp add: e postMessage_def)
  qed
qed

lemma monitored_checkHeartbeats_loop:
  assumes "monitored s p a h" and "now - a \<le> HEARTBEAT_TIMEOUT"
    and "\<forall>(q, i) \<in> set es. q = p \<longrightarrow> lastPong i = a"
  shows "monitored (checkHeartbeats_loop es now s) p a h"
  using assms
proof (induction es arbitrary: s)
  case Nil
  then show ?case by simp
next
  case (Cons e es)
  obtain q i where e: "e = (q, i)" by (cases e)
  from Cons.prems(3) have rest: "\<forall>(q, i) \<in> set es. q = p \<longrightarrow> lastPong i = a" by simp
  show ?case
  proof (cases "now - lastPong i > HEARTBEAT_TIMEOUT")
    case True
    with Cons.prems(2,3) have "q \<noteq> p" by (auto simp: e)
    from monitored_removePort [OF Cons.prems(1) this]
    have "monitored (removePort s q) p a h" .
    from Cons.IH [OF this Cons.prems(2) rest] True show ?thesis by (simp add: e)
  next
    case False
    from Cons.IH [OF Cons.prems(1,2) rest] False show ?thesis by (simp add: e)
  qed
qed

lemma absent_checkHeartbeats_loop:
  "p \<notin> set (map_keys (ports s)) \<Longrightarrow> p \<notin> set (map_keys (ports (checkHeartbeats_loop es now s)))"
proof (induction es arbitrary: s)
  case Nil
  then show ?case by simp
next
  case (Cons e es)
  obtain q i where e: "e = (q, i)" by (cases e)
  from Cons.prems have "p \<notin> set (map_keys (ports (removePort s q)))"
    by (auto simp: ports_removePort map_delete_def map_keys_def)
  with Cons.prems Cons.IH show ?case by (simp add: e)
qed

lemma evicted_checkHeartbeats_loop:
  assumes "(p, info) \<in> set es" and "now - lastPong info > HEARTBEAT_TIMEOUT"
  shows "p \<notin> set (map_keys (ports (checkHeartbeats_loop es now s)))"
  using assms
proof (induction es arbitrary: s)
  case Nil
  then show ?case by simp
next
  case (Cons e es)
  show ?case
  proof (cases "e = (p, info)")
    case True
    have "p \<notin> set (map_keys (ports (removePort s p)))"
      by (auto simp: ports_removePort map_delete_def map_keys_def)
    from absent_checkHeartbeats_loop [OF this] True Cons.prems(2) show ?thesis by simp
  next
    case False
    with Cons.prems(1) have "(p, info) \<in> set es" by simp
    from Cons.IH [OF this Cons.prems(2)] show ?thesis by (cases e) simp
  qed
qed

lemma monitored_entries:
  "monitored s p a h \<Longrightarrow> \<forall>(q, i) \<in> set (ports s). q = p \<longrightarrow> lastPong i = a"
  by (auto simp: monitored_def map_get_def map_keys_def)

lemma monitored_entry:
  "monitored s p a h \<Longrightarrow> \<exists>info. (p, info) \<in> set (ports s) \<and> lastPong info = a"
  by (auto simp: monitored_def map_get_def dest: map_of_SomeD)

lemma tick_fires:
  "monitored s p a h \<Longrightarrow> step s (now, TimerFires h) = heartbeat_tick s now"
  by (auto simp: monitored_def step_def timer_fired_def)

text \<open>A tick within the timeout keeps the port; a tick after it removes the port.\<close>

lemma monitored_tick:
  assumes "monitored s p a h" and "now - a \<le> HEARTBEAT_TIMEOUT"
  shows "monitored (step s (now, TimerFires h)) p a h"
proof -
  from assms(1) have m: "monitored (sendHeartbeats s) p a h"
    unfolding sendHeartbeats_def by (rule monitored_sendHeartbeats_loop)
  from monitored_checkHeartbeats_loop [OF m assms(2) monitored_entries [OF m]]
  show ?thesis by (simp add: tick_fires [OF assms(1)] heartbeat_tick_def checkHeartbeats_def)
qed

lemma evicted_tick:
  assumes "monitored s p a h" and "now - a > HEARTBEAT_TIMEOUT"
  shows "p \<notin> set (map_keys (ports (step s (now, TimerFires h))))"
proof -
  from assms(1) have m: "monitored (sendHeartbeats s) p a h"
    unfolding sendHeartbeats_def by (rule monitored_sendHeartbeats_loop)
  from monitored_entry [OF m] obtain info where
    "(p, info) \<in> set (ports (sendHeartbeats s))" "lastPong info = a" by blast
  with assms(2) evicted_checkHeartbeats_loop [of p info "ports (sendHeartbeats s)" now "sendHeartbeats s"]
  show ?thesis by (simp add: tick_fires [OF assms(1)] heartbeat_tick_def checkHeartbeats_def)
qed

lemma monitored_ticks:
  assumes "monitored s p a h" and "0 \<le> period s h"
    and "t0 + period s h * int n - a \<le> HEARTBEAT_TIMEOUT"
  shows "monitored (ticks s h t0 n) p a h"
  using assms(3)
proof (induction n)
  case 0
  then show ?case using assms(1) by simp
next
  case (Suc n)
  have "period s h * int n \<le> period s h * int (Suc n)"
    using assms(2) by (simp add: mult_left_mono)
  with Suc.prems have "t0 + period s h * int n - a \<le> HEARTBEAT_TIMEOUT" by linarith
  from Suc.IH [OF this] Suc.prems show ?case by (simp add: monitored_tick)
qed

text \<open>
  A port is registered with \<open>lastPong = a\<close> and sends no \<open>pong\<close>; its \<open>postMessage\<close> works
  and the heartbeat interval \<open>h\<close> is running and fires on time, from \<open>t0\<close> on, a time at
  which the entry was not older than the timeout. Then one of its ticks removes the port;
  the port is registered until that tick, and the tick comes more than the timeout and at
  most the timeout plus one delay of the interval after \<open>a\<close>.
\<close>

lemma silent_port_evicted:
  assumes mon: "monitored s p a h" and pos: "0 < period s h"
    and t0: "t0 - a \<le> HEARTBEAT_TIMEOUT"
  shows "\<exists>n. (\<forall>m < n. p \<in> set (map_keys (ports (ticks s h t0 m))))
           \<and> p \<notin> set (map_keys (ports (ticks s h t0 n)))
           \<and> HEARTBEAT_TIMEOUT < t0 + period s h * int n - a
           \<and> t0 + period s h * int n - a \<le> HEARTBEAT_TIMEOUT + period s h"
proof -
  define d where "d = period s h"
  define x where "x = a + HEARTBEAT_TIMEOUT - t0"
  define k where "k = nat (x div d)"
  from pos have d: "0 < d" by (simp add: d_def)
  from t0 have "0 \<le> x" by (simp add: x_def)
  with d have "0 \<le> x div d" by (simp add: pos_imp_zdiv_nonneg_iff)
  then have kdiv: "int k = x div d" by (simp add: k_def)
  have split: "x = d * (x div d) + x mod d" by simp
  have rem: "0 \<le> x mod d" "x mod d < d" using d by simp_all
  have "d * int k \<le> x" unfolding kdiv using split rem(1) by linarith
  then have lo: "t0 + d * int k - a \<le> HEARTBEAT_TIMEOUT" by (simp add: x_def)
  have "x < d * int k + d" unfolding kdiv using split rem(2) by linarith
  then have hi: "HEARTBEAT_TIMEOUT < t0 + d * int (Suc k) - a"
    by (simp add: x_def algebra_simps)
  have before: "p \<in> set (map_keys (ports (ticks s h t0 m)))" if "m < Suc k" for m
  proof -
    from that have "int m \<le> int k" by simp
    with d have "d * int m \<le> d * int k" by (simp add: mult_left_mono)
    with lo have "t0 + period s h * int m - a \<le> HEARTBEAT_TIMEOUT" by (simp add: d_def)
    from monitored_entry [OF monitored_ticks [OF mon _ this]] pos show ?thesis
      by (force simp: map_keys_def)
  qed
  from lo pos have stay: "monitored (ticks s h t0 k) p a h"
    by (intro monitored_ticks [OF mon]) (simp_all add: d_def)
  from evicted_tick [OF stay, of "t0 + d * int (Suc k)"] hi
  have gone: "p \<notin> set (map_keys (ports (ticks s h t0 (Suc k))))" by (simp add: d_def)
  from lo have top: "t0 + d * int (Suc k) - a \<le> HEARTBEAT_TIMEOUT + d"
    by (simp add: algebra_simps)
  from before gone hi top show ?thesis unfolding d_def by blast
qed

text \<open>
  The first port: when a port connects and \<open>ws\<close> is \<open>null\<close>, \<open>startHeartbeatMonitoring\<close>
  registers the interval with 10000 ms, and the port is monitored from then on.
\<close>

lemma onconnect_starts_monitor:
  assumes "ws s0 = None" and "heartbeatInterval s0 = None" and "fresh_handles s0"
    and "distinct (map_keys (ports s0))" and "p \<notin> faulty s0"
  shows "monitored (state_of (onconnect s0 p a)) p a (nextTimer s0)
       \<and> period (state_of (onconnect s0 p a)) (nextTimer s0) = 10000"
proof -
  let ?T = "\<lparr>handle = nextTimer s0, callback = Heartbeat, delay = 10000, repeating = True\<rparr>"
  let ?P = "map_set (ports s0) p \<lparr>port_id = nextPortId s0, lastPong = a\<rparr>"
  from assms(3) have "\<forall>t \<in> set (timers s0). handle t \<noteq> nextTimer s0"
    by (auto simp: fresh_handles_def)
  from find_fresh [OF this, of ?T]
  have f: "find (\<lambda>t. handle t = nextTimer s0) (timers s0 @ [?T]) = Some ?T" by simp
  have st: "timers (state_of (onconnect s0 p a)) = timers s0 @ [?T]"
    "ports (state_of (onconnect s0 p a)) = ?P"
    "faulty (state_of (onconnect s0 p a)) = faulty s0"
    using assms(1,2)
    by (simp_all add: onconnect_def connect_def startHeartbeatMonitoring_def setInterval_def Let_def)
  have keys: "distinct (map_keys ?P)"
    using assms(4) by (simp add: map_keys_def keys_map_set)
  have entry: "map_get ?P p = Some \<lparr>port_id = nextPortId s0, lastPong = a\<rparr>"
    by (simp add: map_get_def map_of_map_set)
  show ?thesis
    unfolding monitored_def period_def st f using keys entry assms(5) by simp
qed

text \<open>
  So the first port, if it never sends \<open>pong\<close>, is removed by the tick 40000 ms after it
  connected and not before: the bounds of 30000 ms and of 30000 + 10000 ms hold for it.
\<close>

lemma first_port_evicted:
  assumes "ws s0 = None" and "heartbeatInterval s0 = None" and "fresh_handles s0"
    and "distinct (map_keys (ports s0))" and "p \<notin> faulty s0"
  shows "\<exists>n. (\<forall>m < n. p \<in> set (map_keys (ports
                 (ticks (state_of (onconnect s0 p a)) (nextTimer s0) a m))))
           \<and> p \<notin> set (map_keys (ports (ticks (state_of (onconnect s0 p a)) (nextTimer s0) a n)))
           \<and> 30000 < 10000 * int n \<and> 10000 * int n \<le> 30000 + 10000"
proof -
  from onconnect_starts_monitor [OF assms, of a]
  have mon: "monitored (state_of (onconnect s0 p a)) p a (nextTimer s0)"
    and per: "period (state_of (onconnect s0 p a)) (nextTimer s0) = 10000"
    by simp_all
  have "a - a \<le> HEARTBEAT_TIMEOUT" by (simp add: HEARTBEAT_TIMEOUT_def)
  from silent_port_evicted [OF mon _ this] per show ?thesis
    by (simp add: HEARTBEAT_TIMEOUT_def)
qed

lemma first_port_evicted_example:
  "map_keys (ports (ticks tab_connected 1 0 (Suc (Suc (Suc 0))))) = [1]
   \<and> map_keys (ports (ticks tab_connected 1 0 (Suc (Suc (Suc (Suc 0)))))) = []"
  by (simp add: period_def scenario_defs worker_defs)

text \<open>With no timer in the runtime, no timer event changes anything.\<close>

lemma no_timer_no_tick: "timers s = [] \<Longrightarrow> step s (now, TimerFires h) = s"
  by (simp add: step_def timer_fired_def)

text \<open>
  C7. A registered port can be left with no heartbeat at all. \<open>onconnect\<close> starts the
  monitor only when \<open>ws\<close> is \<open>null\<close>, and \<open>ws\<close> can be set while no port is registered: two
  sockets close within 2000 ms, the second close overwrites \<open>reconnectTimeout\<close>, the last
  port leaves and \<open>checkCleanup\<close> clears only the second timer, and the first one fires and
  calls \<open>connect\<close>. Tab 3 then connects, its \<open>postMessage\<close> works and it is registered, but
  the runtime holds no timer: no tick ever comes, and the port that never sends \<open>pong\<close>
  is still registered long after 30000 + 10000 ms.
\<close>

theorem port_without_heartbeat:
  "map_keys (ports tab_unmonitored) = [3]
   \<and> map_option lastPong (map_get (ports tab_unmonitored) 3) = Some 5000
   \<and> 3 \<notin> faulty tab_unmonitored
   \<and> ws tab_unmonitored = Some 2
   \<and> heartbeatInterval tab_unmonitored = None
   \<and> timers tab_unmonitored = []
   \<and> step tab_unmonitored (45000, TimerFires 2) = tab_unmonitored
   \<and> map_keys (ports (run tab_unmonitored
        [(15000, TimerFires 1), (25000, TimerFires 2), (35000, TimerFires 3),
         (45000, TimerFires 4), (55000, TimerFires 5)])) = [3]"
  by (simp add: scenario_defs worker_defs)

end
